theory Spec2Isabelle
  imports Main "HOL-Library.Multiset"
begin

section \<open>The demo script \<^verbatim>\<open>wasm/nodejs/simple-transaction.js\<close>\<close>

text \<open>
  The script is glue around a WASM library: it derives an address from a fixed key,
  connects to a node, fetches the UTXO entries of that address, sorts them by amount,
  asks \<^verbatim>\<open>createTransactions\<close> for a batch of pending transactions and signs and
  submits them one after the other. Everything the library or the node does is outside
  the file; the model takes it as a record of oracles (\<open>world\<close>) and records what the
  script does with it as a trace of events.
\<close>

subsection \<open>JavaScript values of the comparator\<close>

text \<open>
  The comparator of line 56 is
  \<^verbatim>\<open>(a, b) => a.utxoEntry.amount > b.utxoEntry.amount || -(a.utxoEntry.amount < b.utxoEntry.amount)\<close>.
  Its values are booleans and the numbers \<open>-1\<close> and \<open>-0\<close>. Numbers are modelled as
  integers plus negative zero (\<open>Num 0\<close> is \<open>+0\<close>); no fraction, infinity or NaN can
  arise from negating a boolean.
\<close>

datatype js_number = Num int | NegZero

datatype js_value = JSBoolean bool | JSNumber js_number

text \<open>ECMAScript \<^verbatim>\<open>ToNumber\<close> and \<^verbatim>\<open>ToBoolean\<close> on these values.\<close>

fun ToNumber :: "js_value \<Rightarrow> js_number" where
  "ToNumber (JSBoolean b) = (if b then Num 1 else Num 0)"
| "ToNumber (JSNumber n) = n"

fun ToBoolean :: "js_value \<Rightarrow> bool" where
  "ToBoolean (JSBoolean b) = b"
| "ToBoolean (JSNumber (Num n)) = (n \<noteq> 0)"
| "ToBoolean (JSNumber NegZero) = False"

text \<open>Unary minus: \<^verbatim>\<open>-x\<close> is the negation of \<^verbatim>\<open>ToNumber(x)\<close>; \<open>-(+0)\<close> is \<open>-0\<close>.\<close>

definition js_negate :: "js_value \<Rightarrow> js_value" where
  "js_negate v =
     JSNumber (case ToNumber v of
                 Num n \<Rightarrow> (if n = 0 then NegZero else Num (- n))
               | NegZero \<Rightarrow> Num 0)"

text \<open>\<^verbatim>\<open>x || y\<close> is \<open>x\<close> itself when \<open>x\<close> is truthy, and \<open>y\<close> otherwise.\<close>

definition js_or :: "js_value \<Rightarrow> js_value \<Rightarrow> js_value" where
  "js_or x y = (if ToBoolean x then x else y)"

fun is_positive_number :: "js_value \<Rightarrow> bool" where
  "is_positive_number (JSNumber (Num n)) = (0 < n)"
| "is_positive_number _ = False"

fun is_negative_number :: "js_value \<Rightarrow> bool" where
  "is_negative_number (JSNumber (Num n)) = (n < 0)"
| "is_negative_number _ = False"

fun number_gt_zero :: "js_number \<Rightarrow> bool" where
  "number_gt_zero (Num n) = (0 < n)"
| "number_gt_zero NegZero = False"

subsection \<open>UTXO entries\<close>

text \<open>
  An element of the array that \<^verbatim>\<open>rpc.getUtxosByAddresses\<close> resolves to. The script reads
  \<^verbatim>\<open>utxoEntry.amount\<close> only; amounts are unsigned integers (BigInt on the JavaScript
  side, which does not overflow).
\<close>

record utxo_entry =
  amount :: nat
  scriptPublicKey :: string
  blockDaaScore :: nat
  isCoinbase :: bool

record entry =
  address :: string
  outpoint :: "string \<times> nat"
  utxoEntry :: utxo_entry

definition comparator :: "entry \<Rightarrow> entry \<Rightarrow> js_value" where
  "comparator a b =
     js_or (JSBoolean (amount (utxoEntry a) > amount (utxoEntry b)))
           (js_negate (JSBoolean (amount (utxoEntry a) < amount (utxoEntry b))))"

subsection \<open>\<^verbatim>\<open>Array.prototype.sort\<close>\<close>

text \<open>
  ECMAScript's \<^verbatim>\<open>SortCompare\<close> calls the comparator and applies \<^verbatim>\<open>ToNumber\<close> to what
  it returns. The sort is stable (ECMAScript 2019 and later): with a consistent
  comparator the result is the one stable arrangement, whatever algorithm the engine
  runs. It is modelled as insertion from the right, which moves an element past its
  right neighbours only while \<^verbatim>\<open>SortCompare\<close> is positive.
\<close>

definition SortCompare :: "('a \<Rightarrow> 'a \<Rightarrow> js_value) \<Rightarrow> 'a \<Rightarrow> 'a \<Rightarrow> js_number" where
  "SortCompare comparefn x y = ToNumber (comparefn x y)"

fun sort_insert :: "('a \<Rightarrow> 'a \<Rightarrow> js_value) \<Rightarrow> 'a \<Rightarrow> 'a list \<Rightarrow> 'a list" where
  "sort_insert comparefn x [] = [x]"
| "sort_insert comparefn x (y # ys) =
     (if number_gt_zero (SortCompare comparefn x y)
      then y # sort_insert comparefn x ys
      else x # y # ys)"

fun js_sort :: "('a \<Rightarrow> 'a \<Rightarrow> js_value) \<Rightarrow> 'a list \<Rightarrow> 'a list" where
  "js_sort comparefn [] = []"
| "js_sort comparefn (x # xs) = sort_insert comparefn x (js_sort comparefn xs)"

subsection \<open>The outside world\<close>

datatype network_type = Mainnet | Testnet | Devnet | Simnet

datatype encoding = Borsh | SerdeJson

text \<open>
  The number literal \<^verbatim>\<open>0.2\<close> is the IEEE double \<open>7205759403792794 * 2^(-55)\<close>; the
  script only hands it to \<^verbatim>\<open>kaspaToSompi\<close>.
\<close>

datatype js_double = Double int int

definition double_0_2 :: js_double where
  "double_0_2 = Double 7205759403792794 (- 55)"

text \<open>A rejected promise or a thrown exception, with its message.\<close>

datatype js_exception = Exception string

text \<open>The argument object of \<^verbatim>\<open>createTransactions\<close> (lines 58 to 63).\<close>

record build_request =
  entries :: "entry list"
  outputs :: "(string \<times> nat) list"
  priorityFee :: nat
  changeAddress :: string

text \<open>
  What the script cannot decide itself: the command line, the key derivation, the node
  and the library. A promise that rejects is \<open>Some e\<close> or \<open>Inl e\<close>. The outcomes of
  \<^verbatim>\<open>pending.sign\<close> and \<^verbatim>\<open>pending.submit\<close> may depend on the position of the transaction
  in the batch, which stands for everything that happened before the call. The pending
  transactions \<open>'tx\<close> and the summary \<open>'sm\<close> are opaque to the script.
\<close>

record ('tx, 'sm) world =
  argv :: "string list"
  toAddress :: "string \<Rightarrow> network_type \<Rightarrow> string"
  parseUrl :: "string \<Rightarrow> encoding \<Rightarrow> network_type \<Rightarrow> string"
  rpc_connect :: "js_exception option"
  rpc_getUtxosByAddresses :: "string list \<Rightarrow> js_exception + entry list"
  kaspaToSompi :: "js_double \<Rightarrow> nat"
  createTransactions :: "build_request \<Rightarrow> js_exception + ('tx list \<times> 'sm)"
  pending_sign :: "nat \<Rightarrow> 'tx \<Rightarrow> string list \<Rightarrow> js_exception option"
  pending_submit :: "nat \<Rightarrow> 'tx \<Rightarrow> js_exception + string"

subsection \<open>Events\<close>

text \<open>
  One event per effect of the script, in program order. A call that is awaited gives two
  events, the call and its settlement. Console arguments that are objects are recorded
  by the name of the expression printed.
\<close>

datatype console_arg = Text string | Object string

datatype event =
    ConsoleLog "console_arg list"
  | ConsoleInfo "console_arg list"
  | ConsoleError "console_arg list"
  | ConnectCalled
  | ConnectSettled "js_exception option"
  | GetUtxosCalled "string list"
  | GetUtxosSettled "js_exception + entry list"
  | CreateTransactionsCalled build_request
  | CreateTransactionsSettled "js_exception option"
  | SignCalled nat "string list"
  | SignSettled nat "js_exception option"
  | SubmitCalled nat
  | SubmitSettled nat "js_exception + string"
  | Disconnect

text \<open>How the promise of \<^verbatim>\<open>runDemo()\<close> settles.\<close>

datatype outcome = Returned | Thrown js_exception

record run =
  trace :: "event list"
  outcome :: outcome

subsection \<open>Lines 19 and 20: the destination\<close>

text \<open>\<^verbatim>\<open>args.shift()\<close>: the first element, or \<^verbatim>\<open>undefined\<close> (\<open>None\<close>) on an empty array.\<close>

fun shift :: "'a list \<Rightarrow> 'a option" where
  "shift [] = None"
| "shift (x # xs) = Some x"

text \<open>
  \<^verbatim>\<open>x || d\<close> for a string or \<^verbatim>\<open>undefined\<close> on the left: \<^verbatim>\<open>undefined\<close> and the empty
  string are falsy.
\<close>

fun or_default :: "string option \<Rightarrow> string \<Rightarrow> string" where
  "or_default None d = d"
| "or_default (Some s) d = (if s = [] then d else s)"

definition default_destination :: string where
  "default_destination =
     ''kaspatest:qqkl0ct62rv6dz74pff2kx5sfyasl4z28uekevau23g877r5gt6userwyrmtt''"

definition destination :: "string list \<Rightarrow> string" where
  "destination args = or_default (shift args) default_destination"

definition sk :: string where
  "sk = ''b7e151628aed2a6abf7158809cf4f3c762e7160f38b4da56a784d9045190cfef''"

definition network :: network_type where
  "network = Testnet"

definition encoding :: encoding where
  "encoding = Borsh"

subsection \<open>Lines 67 to 74: the loop over the pending transactions\<close>

text \<open>
  \<open>submit_loop w i txs\<close> runs the body for the transactions \<open>txs\<close>, the first of which
  has position \<open>i\<close> in the batch. It returns the events and the exception that ended the
  loop, if one did: \<^verbatim>\<open>await\<close> on a rejected promise throws, and the script has no
  \<^verbatim>\<open>try\<close>.
\<close>

fun submit_loop ::
  "('tx, 'sm) world \<Rightarrow> nat \<Rightarrow> 'tx list \<Rightarrow> event list \<times> js_exception option" where
  "submit_loop w i [] = ([], None)"
| "submit_loop w i (pending # rest) =
     (let before_sign =
            [ConsoleLog [Text ''pending transaction:'', Object ''pending''],
             ConsoleLog [Text ''signing tx with secret key:'', Text sk],
             SignCalled i [sk]]
      in case pending_sign w i pending [sk] of
           Some e \<Rightarrow> (before_sign @ [SignSettled i (Some e)], Some e)
         | None \<Rightarrow>
             (let before_submit =
                    before_sign @
                    [SignSettled i None,
                     ConsoleLog [Text ''submitting pending tx to RPC ...''],
                     SubmitCalled i]
              in case pending_submit w i pending of
                   Inl e \<Rightarrow> (before_submit @ [SubmitSettled i (Inl e)], Some e)
                 | Inr txid \<Rightarrow>
                     (let done_tx =
                            before_submit @
                            [SubmitSettled i (Inr txid),
                             ConsoleLog [Text ''node responded with txid:'', Text txid]];
                          (later, r) = submit_loop w (Suc i) rest
                      in (done_tx @ later, r))))"

subsection \<open>Lines 18 to 78: \<^verbatim>\<open>runDemo\<close>\<close>

text \<open>
  Line 33, \<^verbatim>\<open>sk.toKeypair().toAddress(network).toString()\<close>. The \<^verbatim>\<open>address\<close> of line 37 is
  the \<^verbatim>\<open>Address\<close> object of the same string.
\<close>

definition kaspaAddress :: "('tx, 'sm) world \<Rightarrow> string" where
  "kaspaAddress w = toAddress w sk network"

definition rpcUrl :: "('tx, 'sm) world \<Rightarrow> string" where
  "rpcUrl w = parseUrl w ''127.0.0.1'' encoding network"

definition request :: "('tx, 'sm) world \<Rightarrow> entry list \<Rightarrow> build_request" where
  "request w es =
     \<lparr>entries = js_sort comparator es,
      outputs = [(destination (argv w), kaspaToSompi w double_0_2)],
      priorityFee = 0,
      changeAddress = kaspaAddress w\<rparr>"

definition startup :: "('tx, 'sm) world \<Rightarrow> event list" where
  "startup w =
     [ConsoleLog [Text ''using destination address:'', Text (destination (argv w))],
      ConsoleInfo [Text (''Full kaspa address: '' @ kaspaAddress w)],
      ConsoleInfo [Object ''address''],
      ConsoleInfo [Object ''sk.toKeypair().xOnlyPublicKey''],
      ConsoleInfo [Object ''sk.toKeypair().publicKey''],
      ConsoleLog [Text (''Connecting to '' @ rpcUrl w)],
      ConnectCalled]"

definition runDemo :: "('tx, 'sm) world \<Rightarrow> run" where
  "runDemo w =
     (case rpc_connect w of
        Some e \<Rightarrow> \<lparr>trace = startup w @ [ConnectSettled (Some e)], outcome = Thrown e\<rparr>
      | None \<Rightarrow>
          (let t1 = startup w @ [ConnectSettled None, GetUtxosCalled [kaspaAddress w]]
           in case rpc_getUtxosByAddresses w [kaspaAddress w] of
                Inl e \<Rightarrow> \<lparr>trace = t1 @ [GetUtxosSettled (Inl e)], outcome = Thrown e\<rparr>
              | Inr es \<Rightarrow>
                  (let t2 = t1 @ [GetUtxosSettled (Inr es)]
                   in if length es = 0
                      then \<lparr>trace = t2 @ [ConsoleError [Text ''No UTXOs found for address''],
                                           Disconnect],
                            outcome = Returned\<rparr>
                      else
                        (let t3 = t2 @ [ConsoleInfo [Object ''entries''],
                                        CreateTransactionsCalled (request w es)]
                         in case createTransactions w (request w es) of
                              Inl e \<Rightarrow>
                                \<lparr>trace = t3 @ [CreateTransactionsSettled (Some e)],
                                 outcome = Thrown e\<rparr>
                            | Inr (transactions, summary) \<Rightarrow>
                                (let t4 = t3 @ [CreateTransactionsSettled None,
                                                ConsoleLog [Text ''summary:'', Object ''summary'']]
                                 in case submit_loop w 0 transactions of
                                      (loop, Some e) \<Rightarrow>
                                        \<lparr>trace = t4 @ loop, outcome = Thrown e\<rparr>
                                    | (loop, None) \<Rightarrow>
                                        \<lparr>trace = t4 @ loop @ [Disconnect],
                                         outcome = Returned\<rparr>)))))"

subsection \<open>What a trace says about a transaction and about the connection\<close>

text \<open>
  The script keeps no status of its own. The status read off a trace is how far the two
  awaited calls of a transaction got: nothing fulfilled, \<^verbatim>\<open>sign\<close> fulfilled, \<^verbatim>\<open>submit\<close>
  fulfilled with an identifier. The other three constructors are the markers of the
  specification's pipeline for failed and cancelled transactions; no statement of the
  script produces them.
\<close>

datatype tx_status =
    Built | Signed | Submitted string | Rejected | DependencyCancelled | Cancelled

fun step_status :: "nat \<Rightarrow> tx_status \<Rightarrow> event \<Rightarrow> tx_status" where
  "step_status j s (SignSettled i None) = (if i = j then Signed else s)"
| "step_status j s (SubmitSettled i (Inr txid)) = (if i = j then Submitted txid else s)"
| "step_status j s _ = s"

definition status_of :: "event list \<Rightarrow> nat \<Rightarrow> tx_status" where
  "status_of tr j = foldl (step_status j) Built tr"

fun step_connection :: "bool \<Rightarrow> event \<Rightarrow> bool" where
  "step_connection c (ConnectSettled None) = True"
| "step_connection c Disconnect = False"
| "step_connection c _ = c"

definition connection_open :: "event list \<Rightarrow> bool" where
  "connection_open tr = foldl step_connection False tr"

text \<open>The position of the transaction that an event of the loop is about.\<close>

fun about :: "event \<Rightarrow> nat option" where
  "about (SignCalled i ks) = Some i"
| "about (SignSettled i r) = Some i"
| "about (SubmitCalled i) = Some i"
| "about (SubmitSettled i r) = Some i"
| "about _ = None"

subsection \<open>The events before the loop\<close>

text \<open>The events of lines 19 to 65 in a run that reaches the loop with the entries \<open>es\<close>.\<close>

definition before_loop :: "('tx, 'sm) world \<Rightarrow> entry list \<Rightarrow> event list" where
  "before_loop w es =
     startup w @
     [ConnectSettled None, GetUtxosCalled [kaspaAddress w], GetUtxosSettled (Inr es),
      ConsoleInfo [Object ''entries''], CreateTransactionsCalled (request w es),
      CreateTransactionsSettled None, ConsoleLog [Text ''summary:'', Object ''summary'']]"

subsection \<open>Example worlds\<close>

text \<open>
  Concrete inputs for the examples below: an entry with a given amount and outpoint,
  and a world whose node returns the entries \<open>es\<close>, whose library builds a batch of
  three transactions, and in which signing or submitting may fail at a given position.
\<close>

definition utxo :: "nat \<Rightarrow> string \<Rightarrow> nat \<Rightarrow> entry" where
  "utxo a t k =
     \<lparr>address = ''kaspatest:sender'', outpoint = (t, k),
      utxoEntry = \<lparr>amount = a, scriptPublicKey = ''20ac'', blockDaaScore = 0, isCoinbase = False\<rparr>\<rparr>"

definition demo_world :: "entry list \<Rightarrow> nat option \<Rightarrow> nat option \<Rightarrow> (nat, unit) world" where
  "demo_world es sign_fails submit_fails =
     \<lparr>argv = [],
      toAddress = (\<lambda>k n. ''kaspatest:sender''),
      parseUrl = (\<lambda>h e n. ''ws://127.0.0.1:17210''),
      rpc_connect = None,
      rpc_getUtxosByAddresses = (\<lambda>as. Inr es),
      kaspaToSompi = (\<lambda>d. 20000000),
      createTransactions = (\<lambda>req. Inr ([10, 11, 12], ())),
      pending_sign = (\<lambda>i tx keys. if Some i = sign_fails then Some (Exception ''SignatureError'') else None),
      pending_submit = (\<lambda>i tx. if Some i = submit_fails then Inl (Exception ''SubmissionError'')
                                else Inr ''txid'')\<rparr>"

text \<open>
  The worlds of the examples: every call is fulfilled; the submission of the second
  transaction is rejected; the signing of the second transaction is rejected; the node
  returns no entries.
\<close>

definition fine_world :: "(nat, unit) world" where
  "fine_world = demo_world [utxo 100000000 ''aa'' 0] None None"

definition submit_fails_world :: "(nat, unit) world" where
  "submit_fails_world = demo_world [utxo 100000000 ''aa'' 0] None (Some 1)"

definition sign_fails_world :: "(nat, unit) world" where
  "sign_fails_world = demo_world [utxo 100000000 ''aa'' 0] (Some 1) None"

definition no_utxos_world :: "(nat, unit) world" where
  "no_utxos_world = demo_world [] None None"

section \<open>The transaction builder behind \<^verbatim>\<open>createTransactions\<close>\<close>

text \<open>
  \<^verbatim>\<open>createTransactions\<close> is implemented by the wallet library of the repository, outside
  the script. The definitions of this section follow sections 3 and 4 of the
  specification instead; each says which sentence it reads. The estimator functions
  \<open>mass\<close> and \<open>minFee\<close>, the mass ceiling, the dust threshold and the largest amount of
  the integer domain are not given by the specification and are parameters.
\<close>

text \<open>Modelled from the spec: the error taxonomy of the builder (section 7).\<close>

datatype build_error = InsufficientFunds | TooManyOutputsForSingleTransaction | AmountOverflow

text \<open>Modelled from the spec: an Output, a destination address and an amount (section 3).\<close>

record tx_output =
  out_address :: string
  out_amount :: nat

text \<open>
  Modelled from the spec: an input of a pending transaction is a record of the UTXO set
  or, for the first input of a chained transaction, the change output of its
  predecessor (section 4.3, step 3).
\<close>

datatype tx_input = UtxoInput entry | ChangeInput tx_output

fun input_amount :: "tx_input \<Rightarrow> nat" where
  "input_amount (UtxoInput u) = amount (utxoEntry u)"
| "input_amount (ChangeInput c) = out_amount c"

text \<open>
  Modelled from the spec: the PendingTransaction of section 3, with its inputs, its
  outputs (payments, then the change if any), fee, mass, signing status, the position
  of its predecessor in the batch, and its identifier once submitted.
\<close>

record pending_transaction =
  tx_inputs :: "tx_input list"
  tx_outputs :: "tx_output list"
  tx_fee :: nat
  tx_mass :: nat
  signing_status :: tx_status
  tx_predecessor :: "nat option"
  tx_identifier :: "string option"

text \<open>Modelled from the spec: the Summary of section 3.\<close>

record summary =
  fees :: nat
  amountSent :: nat
  transactionCount :: nat
  utxosConsumed :: nat

text \<open>
  Modelled from the spec: the MassEstimator of section 4.2 and the configuration
  constants of section 4.3. The specification gives the contract of \<open>mass\<close> and
  \<open>minFee\<close> and no formula, and names a mass ceiling, a dust threshold and an integer
  domain without values.
\<close>

record builder_config =
  mass :: "nat \<Rightarrow> nat \<Rightarrow> nat \<Rightarrow> nat"
  minFee :: "nat \<Rightarrow> nat"
  scriptComplexityClass :: nat
  maxMass :: nat
  dustThreshold :: nat
  maxAmount :: nat

definition sum_amounts :: "entry list \<Rightarrow> nat" where
  "sum_amounts us = sum_list (map (\<lambda>u. amount (utxoEntry u)) us)"

definition sum_inputs :: "pending_transaction \<Rightarrow> nat" where
  "sum_inputs tx = sum_list (map input_amount (tx_inputs tx))"

definition sum_outputs :: "pending_transaction \<Rightarrow> nat" where
  "sum_outputs tx = sum_list (map out_amount (tx_outputs tx))"

definition requested :: "(string \<times> nat) list \<Rightarrow> nat" where
  "requested outs = sum_list (map snd outs)"

text \<open>Modelled from the spec: step 1, \<^verbatim>\<open>target0 = sum(outputs.amount) + priorityFee\<close>.\<close>

definition target0 :: "(string \<times> nat) list \<Rightarrow> nat \<Rightarrow> nat" where
  "target0 outs pf = requested outs + pf"

text \<open>
  Modelled from the spec: the minimum fee of a transaction with \<open>n\<close> inputs and \<open>m\<close>
  outputs, \<^verbatim>\<open>minFee(mass(n, m, class))\<close> (section 4.2).
\<close>

definition fee_for :: "builder_config \<Rightarrow> nat \<Rightarrow> nat \<Rightarrow> nat" where
  "fee_for c n m = minFee c (mass c n m (scriptComplexityClass c))"

text \<open>
  Modelled from the spec: the predecessor link, set only when chained: the transaction
  opened after a closed one depends on the last transaction of the batch so far.
\<close>

definition link :: "pending_transaction list \<Rightarrow> nat option" where
  "link batch = (if batch = [] then None else Some (length batch - 1))"

definition payments :: "(string \<times> nat) list \<Rightarrow> tx_output list" where
  "payments outs = map (\<lambda>(a, v). \<lparr>out_address = a, out_amount = v\<rparr>) outs"

text \<open>
  Modelled from the spec: step 4. With coverage reached,
  \<^verbatim>\<open>change = accumulated - target0 - fee_final\<close>; above the dust threshold a change
  output is appended, otherwise the fee absorbs the remainder. The fee of the
  transaction is the minimum fee plus the priority fee (the priority fee is an
  increment above the computed minimum). The fee is computed for the payments and one
  change output, as in the scenario of section 8 (\<^verbatim>\<open>mass(1,2,...)\<close> for one payment).
\<close>

definition finalize ::
  "builder_config \<Rightarrow> (string \<times> nat) list \<Rightarrow> nat \<Rightarrow> string \<Rightarrow> nat option \<Rightarrow>
   tx_input list \<Rightarrow> nat \<Rightarrow> pending_transaction" where
  "finalize c outs pf ca pred ins accumulated =
     (let fee_final = fee_for c (length ins) (length outs + 1);
          change = accumulated - target0 outs pf - fee_final
      in if dustThreshold c < change
         then \<lparr>tx_inputs = ins,
               tx_outputs = payments outs @ [\<lparr>out_address = ca, out_amount = change\<rparr>],
               tx_fee = fee_final + pf,
               tx_mass = mass c (length ins) (length outs + 1) (scriptComplexityClass c),
               signing_status = Built, tx_predecessor = pred, tx_identifier = None\<rparr>
         else \<lparr>tx_inputs = ins,
               tx_outputs = payments outs,
               tx_fee = fee_final + pf + change,
               tx_mass = mass c (length ins) (length outs) (scriptComplexityClass c),
               signing_status = Built, tx_predecessor = pred, tx_identifier = None\<rparr>)"

text \<open>
  Modelled from the spec: step 3. A transaction closed early has a change output as its
  only output; its fee is the minimum fee for its inputs and that one output.
\<close>

definition close_early ::
  "builder_config \<Rightarrow> string \<Rightarrow> nat option \<Rightarrow> tx_input list \<Rightarrow> nat \<Rightarrow> pending_transaction" where
  "close_early c ca pred ins accumulated =
     \<lparr>tx_inputs = ins,
      tx_outputs = [\<lparr>out_address = ca, out_amount = accumulated - fee_for c (length ins) 1\<rparr>],
      tx_fee = fee_for c (length ins) 1,
      tx_mass = mass c (length ins) 1 (scriptComplexityClass c),
      signing_status = Built, tx_predecessor = pred, tx_identifier = None\<rparr>"

text \<open>
  Modelled from the spec: steps 2 and 3 and the loop of section 4.2. The records are
  taken from the front of the ordered set (in the repository the caller has sorted
  them, line 56). After each addition the fee is recomputed and coverage is checked;
  when coverage is not reached and one more input would exceed the mass ceiling, the
  transaction is closed early and its change output is the first input of the next
  one. The loop ends with \<open>InsufficientFunds\<close> when the records are exhausted before
  coverage. The specification does not say what happens when the inputs of a
  transaction to be closed do not exceed its fee; since a zero change output is never
  emitted (section 3), the model reports \<open>InsufficientFunds\<close> there as well.
\<close>

fun select ::
  "builder_config \<Rightarrow> (string \<times> nat) list \<Rightarrow> nat \<Rightarrow> string \<Rightarrow>
   pending_transaction list \<Rightarrow> tx_input list \<Rightarrow> nat \<Rightarrow> entry list \<Rightarrow>
   build_error + pending_transaction list" where
  "select c outs pf ca batch ins accumulated [] = Inl InsufficientFunds"
| "select c outs pf ca batch ins accumulated (u # us) =
     (let ins' = ins @ [UtxoInput u];
          accumulated' = accumulated + amount (utxoEntry u)
      in if target0 outs pf + fee_for c (length ins') (length outs + 1) \<le> accumulated'
         then Inr (batch @ [finalize c outs pf ca (link batch) ins' accumulated'])
         else if maxMass c < mass c (length ins' + 1) (length outs + 1) (scriptComplexityClass c)
         then (if accumulated' \<le> fee_for c (length ins') 1
               then Inl InsufficientFunds
               else (let closed = close_early c ca (link batch) ins' accumulated'
                     in select c outs pf ca (batch @ [closed])
                          [ChangeInput (last (tx_outputs closed))]
                          (accumulated' - fee_for c (length ins') 1) us))
         else select c outs pf ca batch ins' accumulated' us)"

text \<open>Modelled from the spec: step 5, the Summary over the batch.\<close>

definition summarize :: "(string \<times> nat) list \<Rightarrow> pending_transaction list \<Rightarrow> summary" where
  "summarize outs batch =
     \<lparr>fees = sum_list (map tx_fee batch),
      amountSent = requested outs,
      transactionCount = length batch,
      utxosConsumed = length (filter (\<lambda>i. case i of UtxoInput u \<Rightarrow> True | ChangeInput c \<Rightarrow> False)
                                (concat (map tx_inputs batch)))\<rparr>"

text \<open>
  Modelled from the spec: \<^verbatim>\<open>build(utxoSet, outputs, priorityFee, changeAddress)\<close> of
  section 4.3 with its failure modes. \<open>InsufficientFunds\<close> comes first, before any
  transaction is constructed (sections 4.1 and 8 state it without condition); then the
  total is validated against the integer domain, which bounds every later sum; then
  the outputs must fit one transaction under the mass ceiling.
\<close>

definition build ::
  "builder_config \<Rightarrow> entry list \<Rightarrow> (string \<times> nat) list \<Rightarrow> nat \<Rightarrow> string \<Rightarrow>
   build_error + (pending_transaction list \<times> summary)" where
  "build c utxoSet outs pf ca =
     (if sum_amounts utxoSet < target0 outs pf then Inl InsufficientFunds
      else if maxAmount c < sum_amounts utxoSet then Inl AmountOverflow
      else if maxMass c < mass c 1 (length outs + 1) (scriptComplexityClass c)
      then Inl TooManyOutputsForSingleTransaction
      else (case select c outs pf ca [] [] 0 utxoSet of
              Inl e \<Rightarrow> Inl e
            | Inr batch \<Rightarrow> Inr (batch, summarize outs batch)))"

text \<open>The transactions a result of \<open>build\<close> carries.\<close>

definition emitted ::
  "build_error + (pending_transaction list \<times> summary) \<Rightarrow> pending_transaction list" where
  "emitted r = (case r of Inl e \<Rightarrow> [] | Inr (batch, s) \<Rightarrow> batch)"

definition balanced :: "builder_config \<Rightarrow> pending_transaction \<Rightarrow> bool" where
  "balanced c tx \<longleftrightarrow>
     sum_inputs tx = sum_outputs tx + tx_fee tx \<and> sum_inputs tx \<le> maxAmount c"

subsection \<open>Example inputs of the builder\<close>

definition demo_config :: builder_config where
  "demo_config =
     \<lparr>mass = (\<lambda>n m k. 100 * n + 50 * m + k), minFee = (\<lambda>m. m), scriptComplexityClass = 0,
      maxMass = 350, dustThreshold = 100, maxAmount = 2 ^ 64 - 1\<rparr>"

definition demo_utxos :: "entry list" where
  "demo_utxos = [utxo 3000 ''aa'' 0, utxo 4000 ''bb'' 0, utxo 5000 ''cc'' 1]"

definition demo_batch :: "pending_transaction list" where
  "demo_batch =
     [\<lparr>tx_inputs = [UtxoInput (utxo 3000 ''aa'' 0), UtxoInput (utxo 4000 ''bb'' 0)],
       tx_outputs = [\<lparr>out_address = ''kaspatest:sender'', out_amount = 6750\<rparr>],
       tx_fee = 250, tx_mass = 250, signing_status = Built, tx_predecessor = None,
       tx_identifier = None\<rparr>,
      \<lparr>tx_inputs = [ChangeInput \<lparr>out_address = ''kaspatest:sender'', out_amount = 6750\<rparr>,
                    UtxoInput (utxo 5000 ''cc'' 1)],
       tx_outputs = [\<lparr>out_address = ''kaspatest:destination'', out_amount = 9000\<rparr>,
                     \<lparr>out_address = ''kaspatest:sender'', out_amount = 2450\<rparr>],
       tx_fee = 300, tx_mass = 300, signing_status = Built, tx_predecessor = Some 0,
       tx_identifier = None\<rparr>]"

definition demo_summary :: summary where
  "demo_summary = \<lparr>fees = 550, amountSent = 9000, transactionCount = 2, utxosConsumed = 3\<rparr>"

text \<open>
  A world whose library is the builder above with the example configuration: what
  \<^verbatim>\<open>createTransactions\<close> returns for a request is the batch and the summary of \<open>build\<close>
  on the entries, outputs, priority fee and change address of the request. The node
  returns the entries \<open>es\<close>.
\<close>

definition builder_world :: "entry list \<Rightarrow> (pending_transaction, summary) world" where
  "builder_world es =
     \<lparr>argv = [],
      toAddress = (\<lambda>k n. ''kaspatest:sender''),
      parseUrl = (\<lambda>h e n. ''ws://127.0.0.1:17210''),
      rpc_connect = None,
      rpc_getUtxosByAddresses = (\<lambda>as. Inr es),
      kaspaToSompi = (\<lambda>d. 20000000),
      createTransactions =
        (\<lambda>req. case build demo_config (entries req) (outputs req) (priorityFee req)
                       (changeAddress req) of
                  Inl InsufficientFunds \<Rightarrow> Inl (Exception ''InsufficientFunds'')
                | Inl TooManyOutputsForSingleTransaction \<Rightarrow>
                    Inl (Exception ''TooManyOutputsForSingleTransaction'')
                | Inl AmountOverflow \<Rightarrow> Inl (Exception ''AmountOverflow'')
                | Inr r \<Rightarrow> Inr r),
      pending_sign = (\<lambda>i tx keys. None),
      pending_submit = (\<lambda>i tx. Inr ''txid'')\<rparr>"

section \<open>Properties of the script\<close>

subsection \<open>The comparator and the sort\<close>

lemma comparator_cases:
  "comparator a b =
     (if amount (utxoEntry a) > amount (utxoEntry b) then JSBoolean True
      else if amount (utxoEntry a) < amount (utxoEntry b) then JSNumber (Num (- 1))
      else JSNumber NegZero)"
  by (simp add: comparator_def js_or_def js_negate_def)

lemma SortCompare_comparator_pos:
  "number_gt_zero (SortCompare comparator a b) \<longleftrightarrow> amount (utxoEntry a) > amount (utxoEntry b)"
  by (simp add: SortCompare_def comparator_cases)

lemma sort_insert_insort:
  "sort_insert comparator x ys = insort_key (\<lambda>e. amount (utxoEntry e)) x ys"
  by (induction ys) (auto simp: SortCompare_comparator_pos)

lemma js_sort_sort_key:
  "js_sort comparator xs = sort_key (\<lambda>e. amount (utxoEntry e)) xs"
  by (induction xs) (simp_all add: sort_insert_insort)

lemma length_sort_insert: "length (sort_insert c x ys) = Suc (length ys)"
  by (induction ys) simp_all

lemma length_js_sort: "length (js_sort c xs) = length xs"
  by (induction xs) (simp_all add: length_sort_insert)

lemma filter_key_distinct:
  "distinct (map f xs) \<Longrightarrow> k \<in> set xs \<Longrightarrow> filter (\<lambda>x. f k = f x) xs = [k]"
proof (induction xs)
  case Nil
  then show ?case by simp
next
  case (Cons x xs)
  show ?case
  proof (cases "k = x")
    case True
    have "filter (\<lambda>y. f x = f y) xs = []"
      using Cons.prems(1) by (auto simp: filter_empty_conv)
    with True show ?thesis by simp
  next
    case False
    with Cons.prems have kx: "k \<in> set xs" by simp
    then have "f k \<in> f ` set xs" by (rule imageI)
    with Cons.prems(1) have "f k \<noteq> f x" by auto
    with Cons kx show ?thesis by simp
  qed
qed

lemma sort_key_permutation:
  assumes "mset xs = mset ys" and "distinct (map f xs)"
  shows "sort_key f xs = sort_key f ys"
proof (rule properties_for_sort_key)
  show "mset (sort_key f ys) = mset xs" using assms(1) by simp
  show "sorted (map f (sort_key f ys))" by simp
  fix k assume "k \<in> set (sort_key f ys)"
  then have ky: "k \<in> set ys" by simp
  then have kx: "k \<in> set xs" using assms(1) mset_eq_setD by blast
  have "mset (map f xs) = mset (map f ys)" using assms(1) by simp
  then have dy: "distinct (map f ys)" using assms(2) mset_eq_imp_distinct_iff by blast
  have "filter (\<lambda>x. f k = f x) (sort_key f ys) = filter (\<lambda>x. f k = f x) ys"
    using sort_key_stable [of f "f k" ys] by (simp add: eq_commute)
  also have "\<dots> = [k]" using dy ky by (rule filter_key_distinct)
  also have "\<dots> = filter (\<lambda>x. f k = f x) xs"
    using assms(2) kx by (rule filter_key_distinct [symmetric])
  finally show "filter (\<lambda>x. f k = f x) (sort_key f ys) = filter (\<lambda>x. f k = f x) xs" .
qed

subsection \<open>The loop\<close>

lemma submit_loop_Cons:
  "submit_loop w i (p # ps) =
     (case pending_sign w i p [sk] of
        Some e \<Rightarrow>
          ([ConsoleLog [Text ''pending transaction:'', Object ''pending''],
            ConsoleLog [Text ''signing tx with secret key:'', Text sk],
            SignCalled i [sk], SignSettled i (Some e)], Some e)
      | None \<Rightarrow>
          (case pending_submit w i p of
             Inl e \<Rightarrow>
               ([ConsoleLog [Text ''pending transaction:'', Object ''pending''],
                 ConsoleLog [Text ''signing tx with secret key:'', Text sk],
                 SignCalled i [sk], SignSettled i None,
                 ConsoleLog [Text ''submitting pending tx to RPC ...''],
                 SubmitCalled i, SubmitSettled i (Inl e)], Some e)
           | Inr txid \<Rightarrow>
               ([ConsoleLog [Text ''pending transaction:'', Object ''pending''],
                 ConsoleLog [Text ''signing tx with secret key:'', Text sk],
                 SignCalled i [sk], SignSettled i None,
                 ConsoleLog [Text ''submitting pending tx to RPC ...''],
                 SubmitCalled i, SubmitSettled i (Inr txid),
                 ConsoleLog [Text ''node responded with txid:'', Text txid]]
                @ fst (submit_loop w (Suc i) ps),
                snd (submit_loop w (Suc i) ps))))"
  by (simp split: option.split sum.split prod.split)

lemma about_loop:
  "ev \<in> set (fst (submit_loop w i txs)) \<Longrightarrow> about ev = Some j \<Longrightarrow> i \<le> j \<and> j < i + length txs"
proof (induction txs arbitrary: i)
  case Nil
  then show ?case by simp
next
  case (Cons p ps)
  from Cons.prems
  have "ev \<in> set (fst (submit_loop w (Suc i) ps)) \<or> j = i"
    unfolding submit_loop_Cons by (auto split: option.splits sum.splits)
  then show ?case
  proof
    assume "ev \<in> set (fst (submit_loop w (Suc i) ps))"
    from Cons.IH [OF this Cons.prems(2)] show ?thesis by simp
  qed simp
qed

lemma kind_loop:
  "ev \<in> set (fst (submit_loop w i txs)) \<Longrightarrow> about ev = None \<Longrightarrow> \<exists>as. ev = ConsoleLog as"
proof (induction txs arbitrary: i)
  case Nil
  then show ?case by simp
next
  case (Cons p ps)
  from Cons.prems
  have "ev \<in> set (fst (submit_loop w (Suc i) ps)) \<or> (\<exists>as. ev = ConsoleLog as)"
    unfolding submit_loop_Cons by (auto split: option.splits sum.splits)
  then show ?case using Cons.IH Cons.prems(2) by blast
qed

lemma split_after:
  "xs @ ys = pre @ e # post \<Longrightarrow> e \<notin> set xs \<Longrightarrow> \<exists>pre'. pre = xs @ pre' \<and> ys = pre' @ e # post"
  by (induction xs arbitrary: pre) (auto simp: Cons_eq_append_conv)

text \<open>
  A rejection ends the loop: it is the result, and no event is about a later
  transaction.
\<close>

lemma failure_loop:
  "SignSettled k (Some e) \<in> set (fst (submit_loop w i txs)) \<or>
   SubmitSettled k (Inl e) \<in> set (fst (submit_loop w i txs)) \<Longrightarrow>
   snd (submit_loop w i txs) = Some e \<and>
   (\<forall>ev \<in> set (fst (submit_loop w i txs)). \<forall>j. about ev = Some j \<longrightarrow> j \<le> k)"
proof (induction txs arbitrary: i)
  case Nil
  then show ?case by simp
next
  case (Cons p ps)
  show ?case
  proof (cases "pending_sign w i p [sk]")
    case (Some e')
    with Cons.prems show ?thesis unfolding submit_loop_Cons by auto
  next
    case None
    show ?thesis
    proof (cases "pending_submit w i p")
      case (Inl e')
      with None Cons.prems show ?thesis unfolding submit_loop_Cons by auto
    next
      case (Inr txid)
      with None Cons.prems
      have later: "SignSettled k (Some e) \<in> set (fst (submit_loop w (Suc i) ps)) \<or>
            SubmitSettled k (Inl e) \<in> set (fst (submit_loop w (Suc i) ps))"
        unfolding submit_loop_Cons by auto
      then have "Suc i \<le> k" using about_loop [of _ w "Suc i" ps k] by fastforce
      with Cons.IH [OF later] None Inr show ?thesis
        unfolding submit_loop_Cons by auto
    qed
  qed
qed

text \<open>A rejection is the last event of the loop.\<close>

lemma failure_last_loop:
  "ev \<in> set (fst (submit_loop w i txs)) \<Longrightarrow>
   ev = SignSettled k (Some e) \<or> ev = SubmitSettled k (Inl e) \<Longrightarrow>
   last (fst (submit_loop w i txs)) = ev"
proof (induction txs arbitrary: i)
  case Nil
  then show ?case by simp
next
  case (Cons p ps)
  show ?case
  proof (cases "pending_sign w i p [sk]")
    case (Some e')
    with Cons.prems show ?thesis unfolding submit_loop_Cons by auto
  next
    case None
    show ?thesis
    proof (cases "pending_submit w i p")
      case (Inl e')
      with None Cons.prems show ?thesis unfolding submit_loop_Cons by auto
    next
      case (Inr txid)
      with None Cons.prems
      have later: "ev \<in> set (fst (submit_loop w (Suc i) ps))"
        unfolding submit_loop_Cons by auto
      then have "fst (submit_loop w (Suc i) ps) \<noteq> []" by auto
      with Cons.IH [OF later Cons.prems(2)] None Inr show ?thesis
        unfolding submit_loop_Cons by simp
    qed
  qed
qed

text \<open>
  Calls come in the order of the batch: what is called for position \<open>j + 1\<close> comes
  after the fulfilment of \<^verbatim>\<open>submit\<close> for position \<open>j\<close>.
\<close>

lemma order_loop:
  "fst (submit_loop w i txs) = pre @ ev # post \<Longrightarrow>
   (ev = SignCalled (Suc j) ks \<or> ev = SubmitCalled (Suc j)) \<Longrightarrow> i \<le> j \<Longrightarrow>
   \<exists>txid. SubmitSettled j (Inr txid) \<in> set pre"
proof (induction txs arbitrary: i pre)
  case Nil
  then show ?case by simp
next
  case (Cons p ps)
  have ab: "about ev = Some (Suc j)" using Cons.prems(2) by auto
  show ?case
  proof (cases "pending_sign w i p [sk]")
    case (Some e')
    have "ev \<in> set (fst (submit_loop w i (p # ps)))" using Cons.prems(1) by simp
    with Some Cons.prems(2,3) show ?thesis unfolding submit_loop_Cons by auto
  next
    case None
    show ?thesis
    proof (cases "pending_submit w i p")
      case (Inl e')
      have "ev \<in> set (fst (submit_loop w i (p # ps)))" using Cons.prems(1) by simp
      with None Inl Cons.prems(2,3) show ?thesis unfolding submit_loop_Cons by auto
    next
      case (Inr txid)
      let ?hd = "[ConsoleLog [Text ''pending transaction:'', Object ''pending''],
                 ConsoleLog [Text ''signing tx with secret key:'', Text sk],
                 SignCalled i [sk], SignSettled i None,
                 ConsoleLog [Text ''submitting pending tx to RPC ...''],
                 SubmitCalled i, SubmitSettled i (Inr txid),
                 ConsoleLog [Text ''node responded with txid:'', Text txid]]"
      have eq: "?hd @ fst (submit_loop w (Suc i) ps) = pre @ ev # post"
        using Cons.prems(1) None Inr unfolding submit_loop_Cons by simp
      have "ev \<notin> set ?hd" using Cons.prems(2,3) by auto
      from split_after [OF eq this] obtain pre' where
        pre: "pre = ?hd @ pre'" and rest: "fst (submit_loop w (Suc i) ps) = pre' @ ev # post"
        by blast
      show ?thesis
      proof (cases "j = i")
        case True
        then show ?thesis using pre by auto
      next
        case False
        then have "Suc i \<le> j" using Cons.prems(3) by simp
        from Cons.IH [OF rest Cons.prems(2) this] show ?thesis using pre by auto
      qed
    qed
  qed
qed

lemma sign_before_submit_loop:
  "fst (submit_loop w i txs) = pre @ SubmitCalled j # post \<Longrightarrow> SignSettled j None \<in> set pre"
proof (induction txs arbitrary: i pre)
  case Nil
  then show ?case by simp
next
  case (Cons p ps)
  show ?case
  proof (cases "pending_sign w i p [sk]")
    case (Some e')
    with Cons.prems show ?thesis
      unfolding submit_loop_Cons by (auto simp: Cons_eq_append_conv)
  next
    case None
    show ?thesis
    proof (cases "pending_submit w i p")
      case (Inl e')
      with None Cons.prems show ?thesis
        unfolding submit_loop_Cons by (auto simp: Cons_eq_append_conv)
    next
      case (Inr txid)
      let ?hd = "[ConsoleLog [Text ''pending transaction:'', Object ''pending''],
                 ConsoleLog [Text ''signing tx with secret key:'', Text sk],
                 SignCalled i [sk], SignSettled i None,
                 ConsoleLog [Text ''submitting pending tx to RPC ...''],
                 SubmitCalled i, SubmitSettled i (Inr txid),
                 ConsoleLog [Text ''node responded with txid:'', Text txid]]"
      have eq: "?hd @ fst (submit_loop w (Suc i) ps) = pre @ SubmitCalled j # post"
        using Cons.prems(1) None Inr unfolding submit_loop_Cons by simp
      show ?thesis
      proof (cases "j = i")
        case True
        have "SubmitCalled i \<notin> set (fst (submit_loop w (Suc i) ps))"
          using about_loop [of "SubmitCalled i" w "Suc i" ps i] by auto
        with eq True show ?thesis
          by (auto simp: Cons_eq_append_conv)
      next
        case False
        then have "SubmitCalled j \<notin> set ?hd" by auto
        from split_after [OF eq this] obtain pre' where
          pre: "pre = ?hd @ pre'" and rest: "fst (submit_loop w (Suc i) ps) = pre' @ SubmitCalled j # post"
          by blast
        from Cons.IH [OF rest] show ?thesis using pre by auto
      qed
    qed
  qed
qed


lemma split_before:
  "xs @ ys = pre @ e # post \<Longrightarrow> e \<notin> set ys \<Longrightarrow> \<exists>post'. xs = pre @ e # post'"
  by (induction xs arbitrary: pre) (auto simp: Cons_eq_append_conv)

subsection \<open>The whole run\<close>

lemma about_before_loop: "ev \<in> set (before_loop w es) \<Longrightarrow> about ev = None"
  by (auto simp: before_loop_def startup_def)

lemma runDemo_shape:
  "(\<forall>ev \<in> set (trace (runDemo w)). about ev = None) \<or>
   (\<exists>es txs sm.
      rpc_connect w = None \<and>
      rpc_getUtxosByAddresses w [kaspaAddress w] = Inr es \<and> es \<noteq> [] \<and>
      createTransactions w (request w es) = Inr (txs, sm) \<and>
      trace (runDemo w) =
        before_loop w es @ fst (submit_loop w 0 txs) @
        (case snd (submit_loop w 0 txs) of None \<Rightarrow> [Disconnect] | Some e \<Rightarrow> []) \<and>
      outcome (runDemo w) =
        (case snd (submit_loop w 0 txs) of None \<Rightarrow> Returned | Some e \<Rightarrow> Thrown e))"
proof (cases "rpc_connect w")
  case (Some e)
  then show ?thesis by (simp add: runDemo_def startup_def)
next
  case None
  show ?thesis
  proof (cases "rpc_getUtxosByAddresses w [kaspaAddress w]")
    case (Inl e)
    with None show ?thesis by (simp add: runDemo_def startup_def)
  next
    case (Inr es)
    show ?thesis
    proof (cases "es = []")
      case True
      with None Inr show ?thesis by (simp add: runDemo_def startup_def)
    next
      case False
      show ?thesis
      proof (cases "createTransactions w (request w es)")
        case (Inl e)
        with None Inr False show ?thesis by (simp add: runDemo_def startup_def)
      next
        case (Inr b)
        obtain txs sm where b: "b = (txs, sm)" by (cases b)
        obtain loop r where l: "submit_loop w 0 txs = (loop, r)" by (cases "submit_loop w 0 txs")
        have "rpc_connect w = None \<and>
      rpc_getUtxosByAddresses w [kaspaAddress w] = Inr es \<and> es \<noteq> [] \<and>
      createTransactions w (request w es) = Inr (txs, sm) \<and>
      trace (runDemo w) =
        before_loop w es @ fst (submit_loop w 0 txs) @
        (case snd (submit_loop w 0 txs) of None \<Rightarrow> [Disconnect] | Some e \<Rightarrow> []) \<and>
      outcome (runDemo w) =
        (case snd (submit_loop w 0 txs) of None \<Rightarrow> Returned | Some e \<Rightarrow> Thrown e)"
          using None \<open>rpc_getUtxosByAddresses w [kaspaAddress w] = Inr es\<close> False Inr b l
          by (cases r) (simp_all add: runDemo_def before_loop_def)
        then show ?thesis by blast
      qed
    qed
  qed
qed

lemma status_no_marker:
  "s \<notin> {Rejected, DependencyCancelled, Cancelled} \<Longrightarrow>
   foldl (step_status j) s tr \<notin> {Rejected, DependencyCancelled, Cancelled}"
proof (induction tr arbitrary: s)
  case Nil
  then show ?case by simp
next
  case (Cons ev tr)
  have "step_status j s ev \<notin> {Rejected, DependencyCancelled, Cancelled}"
    using Cons.prems by (cases "(j, s, ev)" rule: step_status.cases) auto
  from Cons.IH [OF this] show ?case by simp
qed

lemma status_untouched:
  "\<forall>ev \<in> set tr. about ev \<noteq> Some j \<Longrightarrow> foldl (step_status j) s tr = s"
proof (induction tr arbitrary: s)
  case Nil
  then show ?case by simp
next
  case (Cons ev tr)
  have "step_status j s ev = s"
    using Cons.prems by (cases "(j, s, ev)" rule: step_status.cases) auto
  with Cons show ?case by simp
qed

lemma connection_untouched:
  "\<forall>ev \<in> set tr. ev \<noteq> Disconnect \<and> ev \<noteq> ConnectSettled None \<Longrightarrow> foldl step_connection c tr = c"
proof (induction tr arbitrary: c)
  case Nil
  then show ?case by simp
next
  case (Cons ev tr)
  have "step_connection c ev = c"
    using Cons.prems by (cases "(c, ev)" rule: step_connection.cases) auto
  with Cons show ?case by simp
qed

lemma loop_no_connection_event:
  "ev \<in> set (fst (submit_loop w i txs)) \<Longrightarrow> ev \<noteq> Disconnect \<and> ev \<noteq> ConnectSettled None"
  using kind_loop [of ev w i txs] by (cases "about ev") auto

lemma connection_before_loop: "foldl step_connection False (before_loop w es) = True"
  by (simp add: before_loop_def startup_def)

lemma failure_run:
  assumes "SignSettled i (Some e) \<in> set (trace (runDemo w)) \<or>
           SubmitSettled i (Inl e) \<in> set (trace (runDemo w))"
  shows "\<exists>es txs. trace (runDemo w) = before_loop w es @ fst (submit_loop w 0 txs) \<and>
           outcome (runDemo w) = Thrown e \<and>
           (\<forall>ev \<in> set (fst (submit_loop w 0 txs)). \<forall>j. about ev = Some j \<longrightarrow> j \<le> i) \<and>
           (SignSettled i (Some e) \<in> set (fst (submit_loop w 0 txs)) \<or>
            SubmitSettled i (Inl e) \<in> set (fst (submit_loop w 0 txs)))"
proof -
  from assms obtain ev where ev: "ev \<in> set (trace (runDemo w))" "about ev = Some i"
    "ev = SignSettled i (Some e) \<or> ev = SubmitSettled i (Inl e)" by auto
  with runDemo_shape [of w] obtain es txs sm where
    tr: "trace (runDemo w) =
        before_loop w es @ fst (submit_loop w 0 txs) @
        (case snd (submit_loop w 0 txs) of None \<Rightarrow> [Disconnect] | Some e \<Rightarrow> [])" and
    out: "outcome (runDemo w) =
        (case snd (submit_loop w 0 txs) of None \<Rightarrow> Returned | Some e \<Rightarrow> Thrown e)"
    by fastforce
  have "ev \<notin> set (before_loop w es)" using about_before_loop ev(2) by fastforce
  moreover have "ev \<noteq> Disconnect" using ev(2) by auto
  ultimately have "ev \<in> set (fst (submit_loop w 0 txs))"
    using ev(1) tr by (auto split: option.splits)
  with ev(3) have fail: "SignSettled i (Some e) \<in> set (fst (submit_loop w 0 txs)) \<or>
      SubmitSettled i (Inl e) \<in> set (fst (submit_loop w 0 txs))" by auto
  from failure_loop [OF fail] have r: "snd (submit_loop w 0 txs) = Some e"
    and le: "\<forall>ev \<in> set (fst (submit_loop w 0 txs)). \<forall>j. about ev = Some j \<longrightarrow> j \<le> i"
    by auto
  from tr out r le fail show ?thesis by auto
qed

lemma create_called:
  "CreateTransactionsCalled req \<in> set (trace (runDemo w)) \<Longrightarrow>
   \<exists>es. rpc_getUtxosByAddresses w [kaspaAddress w] = Inr es \<and> es \<noteq> [] \<and> req = request w es"
proof -
  assume a: "CreateTransactionsCalled req \<in> set (trace (runDemo w))"
  have loop: "CreateTransactionsCalled req \<notin> set (fst (submit_loop w 0 txs))" for txs
    using kind_loop [of "CreateTransactionsCalled req" w 0 txs] by auto
  show ?thesis
  proof (cases "rpc_connect w")
    case (Some e)
    with a show ?thesis by (simp add: runDemo_def startup_def)
  next
    case None
    show ?thesis
    proof (cases "rpc_getUtxosByAddresses w [kaspaAddress w]")
      case (Inl e)
      with None a show ?thesis by (simp add: runDemo_def startup_def)
    next
      case (Inr es)
      show ?thesis
      proof (cases "es = []")
        case True
        with None Inr a show ?thesis by (simp add: runDemo_def startup_def)
      next
        case False
        show ?thesis
        proof (cases "createTransactions w (request w es)")
          case (Inl e)
          with None Inr False a show ?thesis by (simp add: runDemo_def startup_def)
        next
          case (Inr b)
          obtain txs sm where b: "b = (txs, sm)" by (cases b)
          obtain l r where l: "submit_loop w 0 txs = (l, r)" by (cases "submit_loop w 0 txs")
          have "CreateTransactionsCalled req \<notin> set l" using loop [of txs] l by simp
          with None \<open>rpc_getUtxosByAddresses w [kaspaAddress w] = Inr es\<close> False Inr b l a
          show ?thesis by (cases r) (auto simp: runDemo_def startup_def)
        qed
      qed
    qed
  qed
qed

section \<open>Properties of the builder\<close>

lemma sum_payments:
  "sum_list (map out_amount (payments outs)) = requested outs"
  by (induction outs) (auto simp: requested_def payments_def)

lemma finalize_balanced:
  assumes "target0 outs pf + fee_for c (length ins) (length outs + 1) \<le> acc"
    and "sum_list (map input_amount ins) = acc"
  shows "sum_inputs (finalize c outs pf ca pred ins acc) =
         sum_outputs (finalize c outs pf ca pred ins acc) + tx_fee (finalize c outs pf ca pred ins acc)"
  using assms
  by (simp add: finalize_def Let_def sum_inputs_def sum_outputs_def sum_payments target0_def)

lemma close_balanced:
  assumes "fee_for c (length ins) 1 < acc"
    and "sum_list (map input_amount ins) = acc"
  shows "sum_inputs (close_early c ca pred ins acc) =
         sum_outputs (close_early c ca pred ins acc) + tx_fee (close_early c ca pred ins acc)"
  using assms by (simp add: close_early_def sum_inputs_def sum_outputs_def)

lemma select_balanced:
  assumes "select c outs pf ca batch ins acc us = Inr result"
    and "\<forall>tx \<in> set batch. balanced c tx"
    and "sum_list (map input_amount ins) = acc"
    and "acc + sum_amounts us \<le> maxAmount c"
  shows "\<forall>tx \<in> set result. balanced c tx"
  using assms
proof (induction us arbitrary: batch ins acc)
  case Nil
  then show ?case by simp
next
  case (Cons u us)
  let ?ins = "ins @ [UtxoInput u]"
  let ?acc = "acc + amount (utxoEntry u)"
  have sum: "sum_list (map input_amount ?ins) = ?acc" using Cons.prems(3) by simp
  have bound: "?acc + sum_amounts us \<le> maxAmount c"
    using Cons.prems(4) by (simp add: sum_amounts_def)
  show ?case
  proof (cases "target0 outs pf + fee_for c (length ?ins) (length outs + 1) \<le> ?acc")
    case True
    then have res: "result = batch @ [finalize c outs pf ca (link batch) ?ins ?acc]"
      using Cons.prems(1) by (simp add: Let_def)
    have "balanced c (finalize c outs pf ca (link batch) ?ins ?acc)"
      unfolding balanced_def
    proof
      show "sum_inputs (finalize c outs pf ca (link batch) ?ins ?acc) =
            sum_outputs (finalize c outs pf ca (link batch) ?ins ?acc) +
            tx_fee (finalize c outs pf ca (link batch) ?ins ?acc)"
        using True sum by (rule finalize_balanced)
      have "sum_inputs (finalize c outs pf ca (link batch) ?ins ?acc) = ?acc"
        using sum by (simp add: finalize_def Let_def sum_inputs_def)
      then show "sum_inputs (finalize c outs pf ca (link batch) ?ins ?acc) \<le> maxAmount c"
        using bound by simp
    qed
    with res Cons.prems(2) show ?thesis by simp
  next
    case False
    note uncovered = False
    show ?thesis
    proof (cases "maxMass c < mass c (length ?ins + 1) (length outs + 1) (scriptComplexityClass c)")
      case True
      show ?thesis
      proof (cases "?acc \<le> fee_for c (length ?ins) 1")
        case True
        with uncovered \<open>maxMass c < _\<close> Cons.prems(1) show ?thesis by (simp add: Let_def)
      next
        case False
        let ?closed = "close_early c ca (link batch) ?ins ?acc"
        let ?rest = "?acc - fee_for c (length ?ins) 1"
        have rec: "select c outs pf ca (batch @ [?closed]) [ChangeInput (last (tx_outputs ?closed))] ?rest us = Inr result"
          using uncovered True False Cons.prems(1) by (simp add: Let_def)
        have lt: "fee_for c (length ?ins) 1 < ?acc" using False by simp
        have "balanced c ?closed"
          unfolding balanced_def
        proof
          show "sum_inputs ?closed = sum_outputs ?closed + tx_fee ?closed"
            using lt sum by (rule close_balanced)
          have "sum_inputs ?closed = ?acc" using sum by (simp add: close_early_def sum_inputs_def)
          then show "sum_inputs ?closed \<le> maxAmount c" using bound by simp
        qed
        then have b: "\<forall>tx \<in> set (batch @ [?closed]). balanced c tx"
          using Cons.prems(2) by simp
        have s: "sum_list (map input_amount [ChangeInput (last (tx_outputs ?closed))]) = ?rest"
          by (simp add: close_early_def)
        have m: "?rest + sum_amounts us \<le> maxAmount c" using bound by simp
        from Cons.IH [OF rec b s m] show ?thesis .
      qed
    next
      case False
      then have rec: "select c outs pf ca batch ?ins ?acc us = Inr result"
        using uncovered Cons.prems(1) by (simp add: Let_def)
      from Cons.IH [OF rec Cons.prems(2) sum bound] show ?thesis .
    qed
  qed
qed

lemmas build_defs =
  build_def demo_config_def utxo_def sum_amounts_def target0_def requested_def fee_for_def
  finalize_def close_early_def link_def summarize_def Let_def payments_def

lemmas demo_defs =
  runDemo_def startup_def request_def kaspaAddress_def demo_world_def utxo_def
  fine_world_def submit_fails_world_def sign_fails_world_def no_utxos_world_def
  destination_def network_def status_of_def connection_open_def

section \<open>The claims\<close>

text \<open>
  Claim C1. For every transaction of a batch that \<open>build\<close> returns, the sum of the
  amounts of its inputs equals the sum of the amounts of its outputs plus its fee, and
  both sides are within the integer domain.
\<close>

theorem build_balanced:
  assumes "build c utxoSet outs pf ca = Inr (batch, s)"
  shows "\<forall>tx \<in> set batch.
           sum_inputs tx = sum_outputs tx + tx_fee tx \<and>
           sum_inputs tx \<le> maxAmount c \<and> sum_outputs tx + tx_fee tx \<le> maxAmount c"
proof -
  from assms have sel: "select c outs pf ca [] [] 0 utxoSet = Inr batch"
    and bound: "sum_amounts utxoSet \<le> maxAmount c"
    by (auto simp: build_def split: if_splits sum.splits)
  have "\<forall>tx \<in> set batch. balanced c tx"
    using sel _ _ _ by (rule select_balanced) (simp_all add: bound)
  then show ?thesis by (auto simp: balanced_def)
qed

theorem build_balanced_witness:
  "build demo_config demo_utxos [(''kaspatest:destination'', 9000)] 0 ''kaspatest:sender'' =
     Inr (demo_batch, demo_summary) \<and>
   length demo_batch = 2 \<and>
   sum_inputs (demo_batch ! 0) = sum_outputs (demo_batch ! 0) + tx_fee (demo_batch ! 0) \<and>
   sum_inputs (demo_batch ! 1) = sum_outputs (demo_batch ! 1) + tx_fee (demo_batch ! 1) \<and>
   sum_inputs (demo_batch ! 1) \<le> maxAmount demo_config"
proof -
  have h: "build demo_config demo_utxos [(''kaspatest:destination'', 9000)] 0 ''kaspatest:sender'' =
     Inr (demo_batch, demo_summary)"
    by (simp add: build_defs demo_utxos_def demo_batch_def demo_summary_def)
  from build_balanced [OF h] h show ?thesis
    by (simp add: demo_batch_def)
qed

text \<open>
  Claim C2, as amended. If signing or submitting transaction \<open>i\<close> fails, the run ends
  with that exception and the rejection is its last event: the script does nothing
  after it. For every later position \<open>j\<close> of the batch the script makes no call of
  \<^verbatim>\<open>sign\<close> and no call of \<^verbatim>\<open>submit\<close>, and the status of such a transaction stays
  \<open>Built\<close>. The script has no marker of its own for these transactions.
\<close>

theorem later_transactions_not_attempted:
  assumes "SignSettled i (Some e) \<in> set (trace (runDemo w)) \<or>
           SubmitSettled i (Inl e) \<in> set (trace (runDemo w))"
  shows "outcome (runDemo w) = Thrown e \<and>
         (last (trace (runDemo w)) = SignSettled i (Some e) \<or>
          last (trace (runDemo w)) = SubmitSettled i (Inl e)) \<and>
         (\<forall>j>i. (\<forall>ks. SignCalled j ks \<notin> set (trace (runDemo w))) \<and>
                 SubmitCalled j \<notin> set (trace (runDemo w)) \<and>
                 status_of (trace (runDemo w)) j = Built)"
proof -
  from failure_run [OF assms] obtain es txs where
    tr: "trace (runDemo w) = before_loop w es @ fst (submit_loop w 0 txs)" and
    out: "outcome (runDemo w) = Thrown e" and
    le: "\<forall>ev \<in> set (fst (submit_loop w 0 txs)). \<forall>j. about ev = Some j \<longrightarrow> j \<le> i" and
    fail: "SignSettled i (Some e) \<in> set (fst (submit_loop w 0 txs)) \<or>
           SubmitSettled i (Inl e) \<in> set (fst (submit_loop w 0 txs))"
    by blast
  from fail have ne: "fst (submit_loop w 0 txs) \<noteq> []" by auto
  have "last (fst (submit_loop w 0 txs)) = SignSettled i (Some e) \<or>
        last (fst (submit_loop w 0 txs)) = SubmitSettled i (Inl e)"
    using fail failure_last_loop [of _ w 0 txs i e] by blast
  then have final: "last (trace (runDemo w)) = SignSettled i (Some e) \<or>
                    last (trace (runDemo w)) = SubmitSettled i (Inl e)"
    using tr ne by simp
  have none: "\<forall>ev \<in> set (trace (runDemo w)). about ev \<noteq> Some j" if "i < j" for j
    using tr le about_before_loop that by fastforce
  have "(\<forall>ks. SignCalled j ks \<notin> set (trace (runDemo w))) \<and>
        SubmitCalled j \<notin> set (trace (runDemo w)) \<and>
        status_of (trace (runDemo w)) j = Built" if "i < j" for j
  proof -
    have "SignCalled j ks \<notin> set (trace (runDemo w))" for ks
      using none [OF that] by fastforce
    moreover have "SubmitCalled j \<notin> set (trace (runDemo w))"
      using none [OF that] by fastforce
    moreover have "status_of (trace (runDemo w)) j = Built"
      unfolding status_of_def using none [OF that] by (rule status_untouched)
    ultimately show ?thesis by blast
  qed
  with out final show ?thesis by blast
qed

theorem later_transactions_not_attempted_witness:
  "SubmitSettled 1 (Inl (Exception ''SubmissionError'')) \<in> set (trace (runDemo submit_fails_world)) \<and>
   outcome (runDemo submit_fails_world) = Thrown (Exception ''SubmissionError'') \<and>
   last (trace (runDemo submit_fails_world)) =
     SubmitSettled 1 (Inl (Exception ''SubmissionError'')) \<and>
   SignCalled 2 [sk] \<notin> set (trace (runDemo submit_fails_world)) \<and>
   SubmitCalled 2 \<notin> set (trace (runDemo submit_fails_world)) \<and>
   status_of (trace (runDemo submit_fails_world)) 2 = Built"
proof -
  have h: "SubmitSettled 1 (Inl (Exception ''SubmissionError'')) \<in> set (trace (runDemo submit_fails_world))"
    by (simp add: demo_defs)
  have l: "last (trace (runDemo submit_fails_world)) =
           SubmitSettled 1 (Inl (Exception ''SubmissionError''))"
    by (simp add: demo_defs)
  from later_transactions_not_attempted [OF disjI2 [OF h]] h l show ?thesis
    by simp
qed

text \<open>
  Claim C2 as stated fails: in a batch of three transactions where the submission of
  the second one fails, the third one is not marked \<open>DependencyCancelled\<close>.
\<close>

theorem dependency_cancelled_counterexample:
  "SubmitSettled 1 (Inl (Exception ''SubmissionError'')) \<in> set (trace (runDemo submit_fails_world)) \<and>
   status_of (trace (runDemo submit_fails_world)) 2 \<noteq> DependencyCancelled"
  by (simp add: demo_defs)

text \<open>
  Claim C3, as amended. The order in which the entries are handed to
  \<^verbatim>\<open>createTransactions\<close> is a function of the enumerated sequence: the entries of the
  request are the enumerated entries in non-decreasing order of amount, and entries of
  equal amount keep their enumeration order. For two enumerations of the same
  collection the sorted sequences carry the same amounts in the same order, and when
  no two entries have the same amount the two requests are identical, and so is what
  \<^verbatim>\<open>createTransactions\<close> returns for them.
\<close>

theorem ordering_of_permuted_entries:
  assumes "mset U1 = mset U2"
  shows "sorted (map (\<lambda>e. amount (utxoEntry e)) (entries (request w U1))) \<and>
         mset (entries (request w U1)) = mset U1 \<and>
         (\<forall>k. filter (\<lambda>e. amount (utxoEntry e) = k) (entries (request w U1)) =
              filter (\<lambda>e. amount (utxoEntry e) = k) U1) \<and>
         map (\<lambda>e. amount (utxoEntry e)) (entries (request w U1)) =
         map (\<lambda>e. amount (utxoEntry e)) (entries (request w U2)) \<and>
         (distinct (map (\<lambda>e. amount (utxoEntry e)) U1) \<longrightarrow>
            request w U1 = request w U2 \<and>
            createTransactions w (request w U1) = createTransactions w (request w U2))"
proof -
  let ?f = "\<lambda>e. amount (utxoEntry e)"
  have ent: "entries (request w U) = sort_key ?f U" for U
    by (simp add: request_def js_sort_sort_key)
  have 1: "sorted (map ?f (entries (request w U1)))"
    unfolding ent by simp
  have 2: "mset (entries (request w U1)) = mset U1"
    unfolding ent by simp
  have 3: "filter (\<lambda>e. ?f e = k) (entries (request w U1)) = filter (\<lambda>e. ?f e = k) U1" for k
    unfolding ent by (rule sort_key_stable)
  have "sort (map ?f U1) = map ?f (sort_key ?f U2)"
    by (rule properties_for_sort) (simp_all add: assms)
  moreover have "sort (map ?f U1) = map ?f (sort_key ?f U1)"
    by (rule properties_for_sort) simp_all
  ultimately have 4: "map ?f (entries (request w U1)) = map ?f (entries (request w U2))"
    unfolding ent by simp
  have 5: "request w U1 = request w U2 \<and>
           createTransactions w (request w U1) = createTransactions w (request w U2)"
    if "distinct (map ?f U1)"
  proof -
    have "js_sort comparator U1 = js_sort comparator U2"
      unfolding js_sort_sort_key using assms that by (rule sort_key_permutation)
    then have "request w U1 = request w U2" by (simp add: request_def)
    then show ?thesis by simp
  qed
  from 1 2 3 4 5 show ?thesis by blast
qed

theorem ordering_of_permuted_entries_witness:
  "mset [utxo 7 ''aa'' 0, utxo 3 ''bb'' 1] = mset [utxo 3 ''bb'' 1, utxo 7 ''aa'' 0] \<and>
   distinct (map (\<lambda>e. amount (utxoEntry e)) [utxo 7 ''aa'' 0, utxo 3 ''bb'' 1]) \<and>
   entries (request fine_world [utxo 7 ''aa'' 0, utxo 3 ''bb'' 1]) =
     [utxo 3 ''bb'' 1, utxo 7 ''aa'' 0] \<and>
   sorted (map (\<lambda>e. amount (utxoEntry e))
             (entries (request fine_world [utxo 7 ''aa'' 0, utxo 3 ''bb'' 1]))) \<and>
   request fine_world [utxo 7 ''aa'' 0, utxo 3 ''bb'' 1] =
   request fine_world [utxo 3 ''bb'' 1, utxo 7 ''aa'' 0] \<and>
   createTransactions fine_world (request fine_world [utxo 7 ''aa'' 0, utxo 3 ''bb'' 1]) =
   createTransactions fine_world (request fine_world [utxo 3 ''bb'' 1, utxo 7 ''aa'' 0])"
proof -
  have h: "mset [utxo 7 ''aa'' 0, utxo 3 ''bb'' 1] = mset [utxo 3 ''bb'' 1, utxo 7 ''aa'' 0]"
    by simp
  have d: "distinct (map (\<lambda>e. amount (utxoEntry e)) [utxo 7 ''aa'' 0, utxo 3 ''bb'' 1])"
    by (simp add: utxo_def)
  have e: "entries (request fine_world [utxo 7 ''aa'' 0, utxo 3 ''bb'' 1]) =
           [utxo 3 ''bb'' 1, utxo 7 ''aa'' 0]"
    by (simp add: request_def utxo_def SortCompare_def comparator_cases)
  from ordering_of_permuted_entries [OF h, of fine_world] d h e show ?thesis
    by blast
qed

text \<open>
  Claim C3 as stated fails: two entries of equal amount keep their enumeration order; no
  outpoint decides. Two enumerations of the same set give two different orders, and the
  builder, which takes its inputs from the front, returns two different batches: the
  only input of the one transaction is the entry that was enumerated first.
\<close>

theorem enumeration_order_counterexample:
  "set [utxo 100000000 ''aa'' 0, utxo 100000000 ''bb'' 1] =
   set [utxo 100000000 ''bb'' 1, utxo 100000000 ''aa'' 0] \<and>
   entries (request (builder_world [utxo 100000000 ''aa'' 0, utxo 100000000 ''bb'' 1])
              [utxo 100000000 ''aa'' 0, utxo 100000000 ''bb'' 1]) \<noteq>
   entries (request (builder_world [utxo 100000000 ''bb'' 1, utxo 100000000 ''aa'' 0])
              [utxo 100000000 ''bb'' 1, utxo 100000000 ''aa'' 0]) \<and>
   map tx_inputs
     (emitted (build demo_config
        (entries (request (builder_world [utxo 100000000 ''aa'' 0, utxo 100000000 ''bb'' 1])
                    [utxo 100000000 ''aa'' 0, utxo 100000000 ''bb'' 1]))
        [(default_destination, 20000000)] 0 ''kaspatest:sender'')) =
     [[UtxoInput (utxo 100000000 ''aa'' 0)]] \<and>
   map tx_inputs
     (emitted (build demo_config
        (entries (request (builder_world [utxo 100000000 ''bb'' 1, utxo 100000000 ''aa'' 0])
                    [utxo 100000000 ''bb'' 1, utxo 100000000 ''aa'' 0]))
        [(default_destination, 20000000)] 0 ''kaspatest:sender'')) =
     [[UtxoInput (utxo 100000000 ''bb'' 1)]] \<and>
   createTransactions (builder_world [utxo 100000000 ''aa'' 0, utxo 100000000 ''bb'' 1])
     (request (builder_world [utxo 100000000 ''aa'' 0, utxo 100000000 ''bb'' 1])
        [utxo 100000000 ''aa'' 0, utxo 100000000 ''bb'' 1]) \<noteq>
   createTransactions (builder_world [utxo 100000000 ''bb'' 1, utxo 100000000 ''aa'' 0])
     (request (builder_world [utxo 100000000 ''bb'' 1, utxo 100000000 ''aa'' 0])
        [utxo 100000000 ''bb'' 1, utxo 100000000 ''aa'' 0])"
  by (simp add: builder_world_def request_def kaspaAddress_def destination_def network_def
        SortCompare_def comparator_cases build_defs emitted_def insert_commute)

text \<open>
  Claim C4. In every run, a call of \<^verbatim>\<open>sign\<close> or \<^verbatim>\<open>submit\<close> for the transaction at
  position \<open>i + 1\<close> comes after the fulfilment of \<^verbatim>\<open>submit\<close> for the transaction at
  position \<open>i\<close>, and the call of \<^verbatim>\<open>submit\<close> for a transaction comes after the fulfilment
  of its \<^verbatim>\<open>sign\<close>.
\<close>

theorem batch_order:
  assumes "trace (runDemo w) = pre @ ev # post"
  shows "(ev = SignCalled (Suc i) ks \<or> ev = SubmitCalled (Suc i) \<longrightarrow>
            (\<exists>txid. SubmitSettled i (Inr txid) \<in> set pre)) \<and>
         (ev = SubmitCalled i \<longrightarrow> SignSettled i None \<in> set pre)"
proof (cases "about ev")
  case None
  then show ?thesis by auto
next
  case (Some k)
  have "ev \<in> set (trace (runDemo w))" using assms by simp
  with Some runDemo_shape [of w] obtain es txs sm where
    tr: "trace (runDemo w) =
        before_loop w es @ fst (submit_loop w 0 txs) @
        (case snd (submit_loop w 0 txs) of None \<Rightarrow> [Disconnect] | Some e \<Rightarrow> [])"
    by fastforce
  have "ev \<notin> set (before_loop w es)" using about_before_loop Some by fastforce
  from split_after [OF tr [unfolded assms, symmetric] this] obtain pre' where
    pre: "pre = before_loop w es @ pre'" and
    rest: "fst (submit_loop w 0 txs) @
        (case snd (submit_loop w 0 txs) of None \<Rightarrow> [Disconnect] | Some e \<Rightarrow> []) = pre' @ ev # post"
    by blast
  have "ev \<notin> set (case snd (submit_loop w 0 txs) of None \<Rightarrow> [Disconnect] | Some e \<Rightarrow> [])"
    using Some by (auto split: option.splits)
  from split_before [OF rest this] obtain post' where
    loop: "fst (submit_loop w 0 txs) = pre' @ ev # post'" by blast
  have "\<exists>txid. SubmitSettled i (Inr txid) \<in> set pre"
    if "ev = SignCalled (Suc i) ks \<or> ev = SubmitCalled (Suc i)"
    using order_loop [OF loop that] pre by auto
  moreover have "SignSettled i None \<in> set pre" if "ev = SubmitCalled i"
    using sign_before_submit_loop [OF loop [unfolded that]] pre by auto
  ultimately show ?thesis by blast
qed

theorem batch_order_witness:
  "24 < length (trace (runDemo fine_world)) \<and>
   trace (runDemo fine_world) ! 24 = SignCalled 1 [sk] \<and>
   (\<exists>txid. SubmitSettled 0 (Inr txid) \<in> set (take 24 (trace (runDemo fine_world))))"
proof -
  have len: "24 < length (trace (runDemo fine_world))"
    by (simp add: demo_defs)
  have ev: "trace (runDemo fine_world) ! 24 = SignCalled (Suc 0) [sk]"
    by (simp add: demo_defs)
  have "trace (runDemo fine_world) =
        take 24 (trace (runDemo fine_world)) @ trace (runDemo fine_world) ! 24 # drop (Suc 24) (trace (runDemo fine_world))"
    using len by (rule id_take_nth_drop)
  from batch_order [OF this, of 0 "[sk]"] ev len show ?thesis
    by simp
qed

text \<open>
  Claim C5. When the total of the UTXO set is less than the requested outputs plus the
  priority fee, \<open>build\<close> fails with \<open>InsufficientFunds\<close> and its result carries no
  transaction.
\<close>

theorem build_insufficient:
  assumes "sum_amounts utxoSet < requested outs + pf"
  shows "build c utxoSet outs pf ca = Inl InsufficientFunds \<and>
         emitted (build c utxoSet outs pf ca) = []"
  using assms by (simp add: build_def target0_def emitted_def)

theorem build_insufficient_witness:
  "sum_amounts [utxo 5000 ''aa'' 0] < requested [(''kaspatest:destination'', 9000)] + 0 \<and>
   build demo_config [utxo 5000 ''aa'' 0] [(''kaspatest:destination'', 9000)] 0 ''kaspatest:sender'' =
     Inl InsufficientFunds \<and>
   emitted (build demo_config [utxo 5000 ''aa'' 0] [(''kaspatest:destination'', 9000)] 0
              ''kaspatest:sender'') = []"
proof -
  have h: "sum_amounts [utxo 5000 ''aa'' 0] < requested [(''kaspatest:destination'', 9000)] + 0"
    by (simp add: sum_amounts_def requested_def utxo_def)
  from build_insufficient [OF h, of demo_config "''kaspatest:sender''"] h show ?thesis
    by blast
qed

text \<open>
  Claim C6. When the node returns no entries, \<^verbatim>\<open>createTransactions\<close> is not called:
  the script prints \<^verbatim>\<open>No UTXOs found for address\<close> and returns normally. In every run,
  a call of \<^verbatim>\<open>createTransactions\<close> carries a non-empty list of entries.
\<close>

theorem no_build_without_utxos:
  "(rpc_connect w = None \<and> rpc_getUtxosByAddresses w [kaspaAddress w] = Inr [] \<longrightarrow>
      (\<forall>req. CreateTransactionsCalled req \<notin> set (trace (runDemo w))) \<and>
      ConsoleError [Text ''No UTXOs found for address''] \<in> set (trace (runDemo w)) \<and>
      outcome (runDemo w) = Returned) \<and>
   (\<forall>req. CreateTransactionsCalled req \<in> set (trace (runDemo w)) \<longrightarrow> entries req \<noteq> [])"
proof -
  have "entries req \<noteq> []" if "CreateTransactionsCalled req \<in> set (trace (runDemo w))" for req
  proof -
    from create_called [OF that] obtain es where "es \<noteq> []" "req = request w es" by blast
    then have "length (entries req) \<noteq> 0" by (simp add: request_def length_js_sort)
    then show ?thesis by auto
  qed
  moreover have "(\<forall>req. CreateTransactionsCalled req \<notin> set (trace (runDemo w))) \<and>
      ConsoleError [Text ''No UTXOs found for address''] \<in> set (trace (runDemo w)) \<and>
      outcome (runDemo w) = Returned"
    if "rpc_connect w = None" "rpc_getUtxosByAddresses w [kaspaAddress w] = Inr []"
    using that by (simp add: runDemo_def startup_def)
  ultimately show ?thesis by blast
qed

theorem no_build_without_utxos_witness:
  "rpc_connect no_utxos_world = None \<and>
   rpc_getUtxosByAddresses no_utxos_world [kaspaAddress no_utxos_world] = Inr [] \<and>
   CreateTransactionsCalled (request no_utxos_world []) \<notin> set (trace (runDemo no_utxos_world)) \<and>
   ConsoleError [Text ''No UTXOs found for address''] \<in> set (trace (runDemo no_utxos_world)) \<and>
   outcome (runDemo no_utxos_world) = Returned"
proof -
  have h: "rpc_connect no_utxos_world = None \<and> rpc_getUtxosByAddresses no_utxos_world [kaspaAddress no_utxos_world] = Inr []"
    by (simp add: no_utxos_world_def demo_world_def)
  with no_build_without_utxos [of no_utxos_world] show ?thesis
    by blast
qed

text \<open>
  Claim C8, as amended. The comparator returns the boolean \<^verbatim>\<open>true\<close>, which the sort
  reads as the positive number 1, exactly when the amount of \<open>a\<close> is greater than that of
  \<open>b\<close>; a negative number, namely \<open>-1\<close>, exactly when it is smaller; negative zero
  exactly when the amounts are equal. The sorted entries are in non-decreasing order of amount, they
  are the same entries, and entries of equal amount keep their relative order.
\<close>

theorem comparator_and_sort:
  "(comparator a b = JSBoolean True \<longleftrightarrow> amount (utxoEntry a) > amount (utxoEntry b)) \<and>
   (number_gt_zero (SortCompare comparator a b) \<longleftrightarrow> amount (utxoEntry a) > amount (utxoEntry b)) \<and>
   (is_negative_number (comparator a b) \<longleftrightarrow> amount (utxoEntry a) < amount (utxoEntry b)) \<and>
   (comparator a b = JSNumber (Num (- 1)) \<longleftrightarrow> amount (utxoEntry a) < amount (utxoEntry b)) \<and>
   (comparator a b = JSNumber NegZero \<longleftrightarrow> amount (utxoEntry a) = amount (utxoEntry b)) \<and>
   sorted (map (\<lambda>e. amount (utxoEntry e)) (js_sort comparator xs)) \<and>
   mset (js_sort comparator xs) = mset xs \<and>
   (\<forall>k. filter (\<lambda>e. amount (utxoEntry e) = k) (js_sort comparator xs) =
        filter (\<lambda>e. amount (utxoEntry e) = k) xs)"
proof -
  have 1: "comparator a b = JSBoolean True \<longleftrightarrow> amount (utxoEntry a) > amount (utxoEntry b)"
    by (simp add: comparator_cases)
  have 2: "is_negative_number (comparator a b) \<longleftrightarrow> amount (utxoEntry a) < amount (utxoEntry b)"
    by (simp add: comparator_cases)
  have 3: "comparator a b = JSNumber NegZero \<longleftrightarrow> amount (utxoEntry a) = amount (utxoEntry b)"
    by (auto simp: comparator_cases)
  have 7: "comparator a b = JSNumber (Num (- 1)) \<longleftrightarrow> amount (utxoEntry a) < amount (utxoEntry b)"
    by (simp add: comparator_cases)
  have 4: "sorted (map (\<lambda>e. amount (utxoEntry e)) (js_sort comparator xs))"
    by (simp add: js_sort_sort_key)
  have 5: "mset (js_sort comparator xs) = mset xs"
    by (simp add: js_sort_sort_key)
  have 6: "filter (\<lambda>e. amount (utxoEntry e) = k) (js_sort comparator xs) =
        filter (\<lambda>e. amount (utxoEntry e) = k) xs" for k
    by (simp add: js_sort_sort_key sort_key_stable)
  from 1 2 3 4 5 6 7 SortCompare_comparator_pos [of a b] show ?thesis by blast
qed

text \<open>
  Claim C8 as stated fails: for a greater amount the value of the comparator is not a
  number.
\<close>

theorem comparator_returns_boolean:
  "amount (utxoEntry (utxo 5 ''aa'' 0)) > amount (utxoEntry (utxo 3 ''bb'' 0)) \<and>
   \<not> is_positive_number (comparator (utxo 5 ''aa'' 0) (utxo 3 ''bb'' 0))"
  by (simp add: comparator_cases utxo_def)

text \<open>
  Claim C9. If \<^verbatim>\<open>pending.sign\<close> or \<^verbatim>\<open>pending.submit\<close> rejects for the transaction at
  position \<open>i\<close>, the run ends with that exception, no event of the run is about a later
  transaction, no transaction has a rejected or cancelled status, and \<^verbatim>\<open>rpc.disconnect()\<close>
  is not executed: the connection is still open.
\<close>

theorem exception_propagates:
  assumes "SignSettled i (Some e) \<in> set (trace (runDemo w)) \<or>
           SubmitSettled i (Inl e) \<in> set (trace (runDemo w))"
  shows "outcome (runDemo w) = Thrown e \<and>
         (\<forall>j>i. \<forall>ev \<in> set (trace (runDemo w)). about ev \<noteq> Some j) \<and>
         (\<forall>j. status_of (trace (runDemo w)) j \<notin> {Rejected, DependencyCancelled, Cancelled}) \<and>
         Disconnect \<notin> set (trace (runDemo w)) \<and>
         connection_open (trace (runDemo w))"
proof -
  from assms obtain ev where ev: "ev \<in> set (trace (runDemo w))" "about ev = Some i"
    "ev = SignSettled i (Some e) \<or> ev = SubmitSettled i (Inl e)" by auto
  with runDemo_shape [of w] obtain es txs sm where
    tr: "trace (runDemo w) =
        before_loop w es @ fst (submit_loop w 0 txs) @
        (case snd (submit_loop w 0 txs) of None \<Rightarrow> [Disconnect] | Some e \<Rightarrow> [])" and
    out: "outcome (runDemo w) =
        (case snd (submit_loop w 0 txs) of None \<Rightarrow> Returned | Some e \<Rightarrow> Thrown e)"
    by fastforce
  have "ev \<notin> set (before_loop w es)" using about_before_loop ev(2) by fastforce
  moreover have "ev \<noteq> Disconnect" using ev(2) by auto
  ultimately have "ev \<in> set (fst (submit_loop w 0 txs))"
    using ev(1) tr by (auto split: option.splits)
  with ev(3) have fail: "SignSettled i (Some e) \<in> set (fst (submit_loop w 0 txs)) \<or>
      SubmitSettled i (Inl e) \<in> set (fst (submit_loop w 0 txs))" by auto
  from failure_loop [OF fail] have r: "snd (submit_loop w 0 txs) = Some e"
    and le: "\<forall>ev \<in> set (fst (submit_loop w 0 txs)). \<forall>j. about ev = Some j \<longrightarrow> j \<le> i"
    by auto
  have tr': "trace (runDemo w) = before_loop w es @ fst (submit_loop w 0 txs)"
    using tr r by simp
  have 1: "outcome (runDemo w) = Thrown e" using out r by simp
  have 2: "\<forall>j>i. \<forall>ev \<in> set (trace (runDemo w)). about ev \<noteq> Some j"
    using tr' le about_before_loop by fastforce
  have 3: "\<forall>j. status_of (trace (runDemo w)) j \<notin> {Rejected, DependencyCancelled, Cancelled}"
    unfolding status_of_def using status_no_marker [of Built] by simp
  have 4: "Disconnect \<notin> set (trace (runDemo w))"
    using tr' loop_no_connection_event [of Disconnect w 0 txs]
    by (auto simp: before_loop_def startup_def)
  have 5: "connection_open (trace (runDemo w))"
    unfolding connection_open_def tr' foldl_append connection_before_loop
    using connection_untouched [of "fst (submit_loop w 0 txs)" True]
      loop_no_connection_event [of _ w 0 txs] by auto
  from 1 2 3 4 5 show ?thesis by blast
qed


theorem exception_propagates_witness:
  "SignSettled 1 (Some (Exception ''SignatureError'')) \<in> set (trace (runDemo sign_fails_world)) \<and>
   outcome (runDemo sign_fails_world) = Thrown (Exception ''SignatureError'') \<and>
   Some 2 \<notin> about ` set (trace (runDemo sign_fails_world)) \<and>
   status_of (trace (runDemo sign_fails_world)) 2 \<notin> {Rejected, DependencyCancelled, Cancelled} \<and>
   Disconnect \<notin> set (trace (runDemo sign_fails_world)) \<and>
   connection_open (trace (runDemo sign_fails_world))"
proof -
  have h: "SignSettled 1 (Some (Exception ''SignatureError'')) \<in> set (trace (runDemo sign_fails_world))"
    by (simp add: demo_defs)
  from exception_propagates [OF disjI1 [OF h]]
  have "outcome (runDemo sign_fails_world) = Thrown (Exception ''SignatureError'') \<and>
        (\<forall>ev \<in> set (trace (runDemo sign_fails_world)). about ev \<noteq> Some 2) \<and>
        status_of (trace (runDemo sign_fails_world)) 2 \<notin> {Rejected, DependencyCancelled, Cancelled} \<and>
        Disconnect \<notin> set (trace (runDemo sign_fails_world)) \<and>
        connection_open (trace (runDemo sign_fails_world))"
    by simp
  with h show ?thesis
    by (auto simp: image_iff)
qed

text \<open>
  Claim C10, as amended. The destination is the fixed testnet address when no argument
  is supplied or when the first argument is the empty string, and the first argument
  otherwise. Every call of \<^verbatim>\<open>createTransactions\<close> carries exactly one output, to the
  destination and of amount \<^verbatim>\<open>kaspaToSompi(0.2)\<close>, the priority fee 0, and the sender's
  own address as change address.
\<close>

theorem destination_and_request:
  "destination args =
     (case args of [] \<Rightarrow> default_destination
      | a # rest \<Rightarrow> if a = [] then default_destination else a) \<and>
   (\<forall>req. CreateTransactionsCalled req \<in> set (trace (runDemo w)) \<longrightarrow>
      outputs req = [(destination (argv w), kaspaToSompi w double_0_2)] \<and>
      priorityFee req = 0 \<and>
      changeAddress req = kaspaAddress w)"
proof -
  have "destination args =
     (case args of [] \<Rightarrow> default_destination
      | a # rest \<Rightarrow> if a = [] then default_destination else a)"
    by (cases args) (simp_all add: destination_def)
  moreover have "outputs req = [(destination (argv w), kaspaToSompi w double_0_2)] \<and>
      priorityFee req = 0 \<and> changeAddress req = kaspaAddress w"
    if "CreateTransactionsCalled req \<in> set (trace (runDemo w))" for req
    using create_called [OF that] by (auto simp: request_def)
  ultimately show ?thesis by blast
qed

theorem destination_and_request_witness:
  "destination [''kaspatest:destination''] = ''kaspatest:destination'' \<and>
   CreateTransactionsCalled (request fine_world [utxo 100000000 ''aa'' 0]) \<in> set (trace (runDemo fine_world)) \<and>
   outputs (request fine_world [utxo 100000000 ''aa'' 0]) = [(default_destination, 20000000)] \<and>
   priorityFee (request fine_world [utxo 100000000 ''aa'' 0]) = 0 \<and>
   changeAddress (request fine_world [utxo 100000000 ''aa'' 0]) = ''kaspatest:sender''"
proof -
  have h: "CreateTransactionsCalled (request fine_world [utxo 100000000 ''aa'' 0]) \<in> set (trace (runDemo fine_world))"
    by (simp add: demo_defs)
  from destination_and_request [of "[''kaspatest:destination'']" fine_world] h show ?thesis
    by (simp add: demo_defs)
qed

text \<open>
  Claim C10 as stated fails: an empty string as first argument is an argument, and the
  destination is not that argument.
\<close>

theorem first_argument_counterexample:
  "shift [[] :: string] = Some [] \<and> destination [[]] = default_destination \<and> destination [[]] \<noteq> []"
  by (simp add: destination_def default_destination_def)



end
